theory Spec2Isabelle
  imports Main "HOL-Library.Char_ord" "HOL-Library.Sublist"
begin

section \<open>CLAM matchers (clam.h): strings, pointers and results\<close>

text \<open>
  A C string is modelled by the list of its characters before the terminating null
  character; the terminator itself is implicit. \<open>valid_read_string\<close> (the name of the
  ACSL predicate every matcher requires) says that the list holds no null character, so
  that its length is \<open>strlen\<close>. A pointer \<open>input + i\<close> into the string is the suffix
  \<open>drop i input\<close>, and reading \<open>input[0]\<close> at the end of the list yields the
  terminator. The matchers advance a pointer only past a character that was not the
  terminator (the conjunctions of the header short-circuit), so they form \<open>input + i\<close>
  for \<open>i\<close> up to the length only. \<open>clam_match_result_t\<close> is \<open>uintptr_t\<close>; every counter of the library
  is bounded by the length of one of its arguments, which the header's axiom
  \<open>strlen_less_or_equal_uintptr_max\<close> bounds by \<open>UINTPTR_MAX\<close>, so results are
  natural numbers and no addition wraps.
\<close>

type_synonym clam_match_result_t = nat

definition NUL :: char where
  "NUL = CHR 0x00"

definition valid_read_string :: "string \<Rightarrow> bool" where
  "valid_read_string s \<longleftrightarrow> NUL \<notin> set s"

text \<open>The allow-set parameter may be the null pointer: \<open>None\<close>.\<close>

definition valid_read_string_or_null :: "string option \<Rightarrow> bool" where
  "valid_read_string_or_null p = (case p of None \<Rightarrow> True | Some s \<Rightarrow> valid_read_string s)"

fun deref :: "string \<Rightarrow> char" where
  "deref [] = NUL"
| "deref (c # _) = c"

definition ptr_add :: "string \<Rightarrow> nat \<Rightarrow> string" where
  "ptr_add p i = drop i p"

definition idx :: "string \<Rightarrow> nat \<Rightarrow> char" where
  "idx p i = deref (ptr_add p i)"

section \<open>Basic character matchers\<close>

text \<open>\<open>return input[0] == c;\<close>\<close>

definition clam_match_char :: "string \<Rightarrow> char \<Rightarrow> clam_match_result_t" where
  "clam_match_char input c = of_bool (idx input 0 = c)"

text \<open>\<open>return clam_match_char(input, 0);\<close>\<close>

definition clam_match_end :: "string \<Rightarrow> clam_match_result_t" where
  "clam_match_end input = clam_match_char input NUL"

text \<open>
  The loop of \<open>clam_match_anychar\<close>, with its variables \<open>i\<close> and \<open>result\<close>:
  \<^verbatim>\<open>while (!result && !clam_match_end(chars + i)) {
    result = clam_match_char(input, chars[i]);
    if (result) break;
    i++; }\<close>
\<close>

function clam_match_anychar_loop ::
  "string \<Rightarrow> string \<Rightarrow> nat \<Rightarrow> clam_match_result_t \<Rightarrow> clam_match_result_t" where
  "clam_match_anychar_loop input chars i result =
     (if result = 0 \<and> clam_match_end (ptr_add chars i) = 0 then
        (let result' = clam_match_char input (idx chars i) in
         if result' \<noteq> 0 then result'
         else clam_match_anychar_loop input chars (i + 1) result')
      else result)"
  by pat_completeness auto
termination
proof (relation "measure (\<lambda>(input, chars, i, result). length chars - i)", goal_cases)
  case 1
  show ?case by simp
next
  case (2 input chars i result x)
  then show ?case
    by (cases "i < length chars")
       (auto simp: clam_match_end_def clam_match_char_def idx_def ptr_add_def NUL_def
             split: if_splits)
qed

definition clam_match_anychar :: "string \<Rightarrow> string option \<Rightarrow> clam_match_result_t" where
  "clam_match_anychar input chars =
     (if clam_match_end input \<noteq> 0 then 0
      else case chars of
             None \<Rightarrow> 1
           | Some cs \<Rightarrow> clam_match_anychar_loop input cs 0 0)"

section \<open>String matchers\<close>

text \<open>
  \<open>clam_match_at_least_n_chars\<close> and \<open>clam_match_chars\<close> run the same loop over
  \<open>i\<close>, written out twice in the header:
  \<^verbatim>\<open>while (!clam_match_end(input + i) && !clam_match_end(chars + i) &&
       clam_match_char(input + i, chars[i])) { i++; }\<close>
\<close>

function lockstep_loop :: "string \<Rightarrow> string \<Rightarrow> nat \<Rightarrow> nat" where
  "lockstep_loop input chars i =
     (if clam_match_end (ptr_add input i) = 0 \<and> clam_match_end (ptr_add chars i) = 0 \<and>
         clam_match_char (ptr_add input i) (idx chars i) \<noteq> 0
      then lockstep_loop input chars (i + 1)
      else i)"
  by pat_completeness auto
termination
proof (relation "measure (\<lambda>(input, chars, i). length input - i)", goal_cases)
  case 1
  show ?case by simp
next
  case (2 input chars i)
  then show ?case
    by (cases "i < length input")
       (auto simp: clam_match_end_def clam_match_char_def idx_def ptr_add_def NUL_def
             split: if_splits)
qed

text \<open>\<open>return (i >= n) ? i : 0;\<close>\<close>

definition clam_match_at_least_n_chars :: "string \<Rightarrow> nat \<Rightarrow> string \<Rightarrow> clam_match_result_t" where
  "clam_match_at_least_n_chars input n chars =
     (let i = lockstep_loop input chars 0 in if i \<ge> n then i else 0)"

text \<open>\<open>return clam_match_end(chars + i) ? i : 0;\<close>\<close>

definition clam_match_chars :: "string \<Rightarrow> string \<Rightarrow> clam_match_result_t" where
  "clam_match_chars input chars =
     (let i = lockstep_loop input chars 0 in
      if clam_match_end (ptr_add chars i) \<noteq> 0 then i else 0)"

definition clam_match_chars_to_end :: "string \<Rightarrow> string \<Rightarrow> clam_match_result_t" where
  "clam_match_chars_to_end input chars =
     (let i = clam_match_chars input chars in
      if i = 0 then 0
      else if clam_match_end (ptr_add input i) \<noteq> 0 then i else 0)"

text \<open>
  The character classes compare \<open>char\<close> values with character literals. The order on
  \<^typ>\<open>char\<close> is that of the byte values 0..255; where C's \<open>char\<close> is signed the bytes
  from 128 on are negative, and they fall outside every range below either way
  (lemma \<open>signed_char_range\<close>).
\<close>

definition clam_match_numeric10_char :: "string \<Rightarrow> clam_match_result_t" where
  "clam_match_numeric10_char input =
     of_bool (idx input 0 \<ge> CHR ''0'' \<and> idx input 0 \<le> CHR ''9'')"

text \<open>\<open>while (clam_match_numeric10_char(input + i)) { i++; } return i;\<close>\<close>

function clam_match_unsigned_integer10_loop :: "string \<Rightarrow> nat \<Rightarrow> nat" where
  "clam_match_unsigned_integer10_loop input i =
     (if clam_match_numeric10_char (ptr_add input i) \<noteq> 0
      then clam_match_unsigned_integer10_loop input (i + 1)
      else i)"
  by pat_completeness auto
termination
proof (relation "measure (\<lambda>(input, i). length input - i)", goal_cases)
  case 1
  show ?case by simp
next
  case (2 input i)
  then show ?case
    by (cases "i < length input")
       (auto simp: clam_match_numeric10_char_def idx_def ptr_add_def NUL_def less_eq_char_def
             split: if_splits)
qed

definition clam_match_unsigned_integer10 :: "string \<Rightarrow> clam_match_result_t" where
  "clam_match_unsigned_integer10 input = clam_match_unsigned_integer10_loop input 0"

text \<open>\<open>const char clam__signs[3] = "-+";\<close>\<close>

definition clam__signs :: string where
  "clam__signs = ''-+''"

definition clam_match_signed_integer10 :: "string \<Rightarrow> clam_match_result_t" where
  "clam_match_signed_integer10 input =
     (let sign = clam_match_anychar input (Some clam__signs);
          number = clam_match_unsigned_integer10 (ptr_add input sign)
      in if number \<noteq> 0 then sign + number else 0)"

definition clam_match_numeric16_char :: "string \<Rightarrow> clam_match_result_t" where
  "clam_match_numeric16_char input =
     of_bool (idx input 0 \<ge> CHR ''0'' \<and> idx input 0 \<le> CHR ''9'' \<or>
              idx input 0 \<ge> CHR ''A'' \<and> idx input 0 \<le> CHR ''F'' \<or>
              idx input 0 \<ge> CHR ''a'' \<and> idx input 0 \<le> CHR ''f'')"

definition clam_match_uppercase_char :: "string \<Rightarrow> clam_match_result_t" where
  "clam_match_uppercase_char input =
     of_bool (idx input 0 \<ge> CHR ''A'' \<and> idx input 0 \<le> CHR ''Z'')"

definition clam_match_lowercase_char :: "string \<Rightarrow> clam_match_result_t" where
  "clam_match_lowercase_char input =
     of_bool (idx input 0 \<ge> CHR ''a'' \<and> idx input 0 \<le> CHR ''z'')"

definition clam_match_alpha_char :: "string \<Rightarrow> clam_match_result_t" where
  "clam_match_alpha_char input =
     of_bool (clam_match_lowercase_char input \<noteq> 0 \<or> clam_match_uppercase_char input \<noteq> 0)"

definition clam_match_alphanumeric_char :: "string \<Rightarrow> clam_match_result_t" where
  "clam_match_alphanumeric_char input =
     of_bool (clam_match_alpha_char input \<noteq> 0 \<or> clam_match_numeric10_char input \<noteq> 0)"

section \<open>POSIX matchers\<close>

definition clam_match_posix_option :: "string \<Rightarrow> string option \<Rightarrow> clam_match_result_t" where
  "clam_match_posix_option input allowed_options =
     (if clam_match_char input CHR ''-'' \<noteq> 0 \<and>
         clam_match_alphanumeric_char (ptr_add input 1) \<noteq> 0 \<and>
         clam_match_anychar (ptr_add input 1) allowed_options \<noteq> 0
      then 2 else 0)"

definition clam_match_posix_long_option :: "string \<Rightarrow> string \<Rightarrow> clam_match_result_t" where
  "clam_match_posix_long_option input option =
     (let dash = clam_match_char input CHR ''-'' in
      if dash = 0 then 0
      else (let opt = clam_match_chars (ptr_add input dash) option in
            if opt \<noteq> 0 then dash + opt else 0))"

text \<open>
  The loop of \<open>clam_match_posix_flags\<close> leaves either by \<open>return 0\<close> from its body
  or by its condition, with the counter \<open>i\<close>:
  \<^verbatim>\<open>while (!clam_match_end(input + i)) {
    if (!(clam_match_alphanumeric_char(input + i) &&
          clam_match_anychar(input + i, allowed_options))) return 0;
    i++; }\<close>
\<close>

datatype loop_exit = Return clam_match_result_t | Done nat

function clam_match_posix_flags_loop :: "string \<Rightarrow> string option \<Rightarrow> nat \<Rightarrow> loop_exit" where
  "clam_match_posix_flags_loop input allowed_options i =
     (if clam_match_end (ptr_add input i) = 0 then
        (if \<not> (clam_match_alphanumeric_char (ptr_add input i) \<noteq> 0 \<and>
                clam_match_anychar (ptr_add input i) allowed_options \<noteq> 0)
         then Return 0
         else clam_match_posix_flags_loop input allowed_options (i + 1))
      else Done i)"
  by pat_completeness auto
termination
proof (relation "measure (\<lambda>(input, allowed_options, i). length input - i)", goal_cases)
  case 1
  show ?case by simp
next
  case (2 input allowed_options i)
  then show ?case
    by (cases "i < length input")
       (auto simp: clam_match_end_def clam_match_char_def idx_def ptr_add_def NUL_def
             split: if_splits)
qed

definition clam_match_posix_flags :: "string \<Rightarrow> string option \<Rightarrow> clam_match_result_t" where
  "clam_match_posix_flags input allowed_options =
     (let i = clam_match_char input CHR ''-'' in
      if i = 0 then 0
      else case clam_match_posix_flags_loop input allowed_options i of
             Return r \<Rightarrow> r
           | Done i' \<Rightarrow> if i' > 1 then i' else 0)"

text \<open>\<open>const char clam__dashes[3] = "--";\<close>\<close>

definition clam__dashes :: string where
  "clam__dashes = ''--''"

definition clam_match_posix_terminate_options :: "string \<Rightarrow> clam_match_result_t" where
  "clam_match_posix_terminate_options input = clam_match_chars_to_end input clam__dashes"

section \<open>Windows matchers\<close>

definition clam_match_windows_switch :: "string \<Rightarrow> string option \<Rightarrow> clam_match_result_t" where
  "clam_match_windows_switch input allowed_switches =
     (if clam_match_char input CHR ''/'' \<noteq> 0 \<and>
         clam_match_alphanumeric_char (ptr_add input 1) \<noteq> 0 \<and>
         clam_match_anychar (ptr_add input 1) allowed_switches \<noteq> 0
      then 2 else 0)"

definition clam_match_windows_long_switch :: "string \<Rightarrow> string \<Rightarrow> clam_match_result_t" where
  "clam_match_windows_long_switch input switch_s =
     (let slash = clam_match_char input CHR ''/'' in
      if slash = 0 then 0
      else (let swtch = clam_match_chars (ptr_add input slash) switch_s in
            if swtch \<noteq> 0 then slash + swtch else 0))"

section \<open>Vocabulary of the properties\<close>

text \<open>
  The character ranges are the predicates of the header's ACSL block \<open>CharacterRanges\<close>.
  \<open>in_allow_set\<close> reads an allow-set parameter: the null pointer allows every
  character, a string allows the characters it holds.
\<close>

definition is_numeric10_char :: "char \<Rightarrow> bool" where
  "is_numeric10_char x \<longleftrightarrow> CHR ''0'' \<le> x \<and> x \<le> CHR ''9''"

definition is_upper_char :: "char \<Rightarrow> bool" where
  "is_upper_char x \<longleftrightarrow> CHR ''A'' \<le> x \<and> x \<le> CHR ''Z''"

definition is_lower_char :: "char \<Rightarrow> bool" where
  "is_lower_char x \<longleftrightarrow> CHR ''a'' \<le> x \<and> x \<le> CHR ''z''"

definition is_alpha_char :: "char \<Rightarrow> bool" where
  "is_alpha_char x \<longleftrightarrow> is_upper_char x \<or> is_lower_char x"

definition is_alphanumeric_char :: "char \<Rightarrow> bool" where
  "is_alphanumeric_char x \<longleftrightarrow> is_alpha_char x \<or> is_numeric10_char x"

definition in_allow_set :: "string option \<Rightarrow> char \<Rightarrow> bool" where
  "in_allow_set allowed c = (case allowed of None \<Rightarrow> True | Some cs \<Rightarrow> c \<in> set cs)"

text \<open>
  The value of a byte read as a signed \<open>char\<close>, for the comparison of the two readings
  of C's \<open>char\<close> in lemma \<open>signed_char_range\<close>.
\<close>

definition signed_char_value :: "char \<Rightarrow> int" where
  "signed_char_value x =
     (if (of_char x :: nat) < 128 then int (of_char x) else int (of_char x) - 256)"

section \<open>What the loops compute\<close>

lemmas loop_simps =
  clam_match_anychar_loop.simps lockstep_loop.simps
  clam_match_unsigned_integer10_loop.simps clam_match_posix_flags_loop.simps
declare loop_simps [simp del]

lemma valid_read_string_Nil [simp]: "valid_read_string []"
  by (simp add: valid_read_string_def)

lemma valid_read_string_Cons [simp]:
  "valid_read_string (c # s) \<longleftrightarrow> c \<noteq> NUL \<and> valid_read_string s"
  by (auto simp: valid_read_string_def)

lemma valid_read_string_drop: "valid_read_string s \<Longrightarrow> valid_read_string (drop i s)"
  unfolding valid_read_string_def by (meson in_set_dropD)

lemma deref_NUL_iff: "valid_read_string s \<Longrightarrow> deref s = NUL \<longleftrightarrow> s = []"
  by (cases s) auto

lemma match_char_deref: "clam_match_char s c = of_bool (deref s = c)"
  by (simp add: clam_match_char_def idx_def ptr_add_def)

lemma match_end_valid: "valid_read_string s \<Longrightarrow> clam_match_end s = of_bool (s = [])"
  by (simp add: clam_match_end_def match_char_deref deref_NUL_iff)

lemma match_end_drop:
  "valid_read_string s \<Longrightarrow> clam_match_end (ptr_add s i) = of_bool (length s \<le> i)"
  by (simp add: ptr_add_def match_end_valid valid_read_string_drop)

lemma idx_nth: "i < length s \<Longrightarrow> idx s i = s ! i"
  by (simp add: idx_def ptr_add_def hd_drop_conv_nth[symmetric]) (cases "drop i s", auto)

lemma anychar_loop_spec:
  "valid_read_string chars \<Longrightarrow>
   clam_match_anychar_loop input chars i 0 = of_bool (deref input \<in> set (drop i chars))"
proof (induction "length chars - i" arbitrary: i)
  case 0
  then show ?case
    by (subst clam_match_anychar_loop.simps) (simp add: match_end_drop)
next
  case (Suc k)
  then have lt: "i < length chars" by simp
  have d: "drop i chars = chars ! i # drop (Suc i) chars"
    using lt by (simp add: Cons_nth_drop_Suc)
  from Suc have IH: "clam_match_anychar_loop input chars (Suc i) 0 =
      of_bool (deref input \<in> set (drop (Suc i) chars))" by simp
  show ?case
    using lt Suc.prems IH
    by (subst clam_match_anychar_loop.simps)
       (auto simp: match_end_drop match_char_deref idx_nth d Let_def)
qed

lemma anychar_spec:
  assumes "valid_read_string input" "valid_read_string_or_null chars"
  shows "clam_match_anychar input chars =
    of_bool (input \<noteq> [] \<and> in_allow_set chars (hd input))"
proof (cases input)
  case Nil
  then show ?thesis by (simp add: clam_match_anychar_def match_end_valid)
next
  case (Cons c cs)
  with assms show ?thesis
    by (auto simp: clam_match_anychar_def match_end_valid in_allow_set_def
        valid_read_string_or_null_def anychar_loop_spec split: option.splits)
qed

lemma lockstep_loop_spec:
  "valid_read_string input \<Longrightarrow> valid_read_string chars \<Longrightarrow>
   lockstep_loop input chars i =
     i + length (longest_common_prefix (drop i input) (drop i chars))"
proof (induction "length input - i" arbitrary: i)
  case 0
  then show ?case
    by (subst lockstep_loop.simps) (simp add: match_end_drop)
next
  case (Suc k)
  then have lt: "i < length input" by simp
  have d: "drop i input = input ! i # drop (Suc i) input"
    using lt by (simp add: Cons_nth_drop_Suc)
  from Suc have IH: "lockstep_loop input chars (Suc i) =
      Suc i + length (longest_common_prefix (drop (Suc i) input) (drop (Suc i) chars))"
    by simp
  show ?case
  proof (cases "i < length chars")
    case True
    then have d': "drop i chars = chars ! i # drop (Suc i) chars"
      by (simp add: Cons_nth_drop_Suc)
    have e: "clam_match_end (ptr_add input i) = 0" "clam_match_end (ptr_add chars i) = 0"
      using lt True Suc.prems by (simp_all add: match_end_drop)
    have m: "clam_match_char (ptr_add input i) (idx chars i) = of_bool (input ! i = chars ! i)"
      using True by (simp add: match_char_deref ptr_add_def d idx_nth)
    show ?thesis
      using IH by (subst lockstep_loop.simps) (simp add: e m d d')
  next
    case False
    then show ?thesis
      using Suc.prems by (subst lockstep_loop.simps) (simp add: match_end_drop)
  qed
qed

lemma unsigned_loop_spec:
  "clam_match_unsigned_integer10_loop input i =
     i + length (takeWhile is_numeric10_char (drop i input))"
proof (induction "length input - i" arbitrary: i)
  case 0
  then show ?case
    by (subst clam_match_unsigned_integer10_loop.simps)
       (simp add: clam_match_numeric10_char_def idx_def ptr_add_def NUL_def less_eq_char_def)
next
  case (Suc k)
  then have lt: "i < length input" by simp
  have d: "drop i input = input ! i # drop (Suc i) input"
    using lt by (simp add: Cons_nth_drop_Suc)
  from Suc have IH: "clam_match_unsigned_integer10_loop input (Suc i) =
      Suc i + length (takeWhile is_numeric10_char (drop (Suc i) input))"
    by simp
  show ?case
    using IH
    by (subst clam_match_unsigned_integer10_loop.simps)
       (simp add: clam_match_numeric10_char_def idx_def ptr_add_def d is_numeric10_char_def)
qed

section \<open>What the matchers compute\<close>

lemma signed_char_range:
  fixes lo hi :: char
  assumes "(of_char hi :: nat) < 128" and "lo \<le> hi"
  shows "(lo \<le> c \<and> c \<le> hi) \<longleftrightarrow>
    (signed_char_value lo \<le> signed_char_value c \<and> signed_char_value c \<le> signed_char_value hi)"
proof -
  have key: "(l \<le> n \<and> n \<le> h) \<longleftrightarrow>
      ((if l < 128 then int l else int l - 256) \<le> (if n < 128 then int n else int n - 256) \<and>
       (if n < 128 then int n else int n - 256) \<le> (if h < 128 then int h else int h - 256))"
    if "h < 128" "l \<le> h" "n < 256" for l h n :: nat
    using that by auto
  have "(of_char c :: nat) < 256"
    by (metis of_char_mod_256 mod_less_divisor zero_less_numeral)
  moreover have "(of_char lo :: nat) \<le> of_char hi"
    using assms(2) by (simp add: less_eq_char_def)
  ultimately show ?thesis
    unfolding less_eq_char_def signed_char_value_def
    using assms(1) by (intro key)
qed

lemma match_chars_spec:
  assumes "valid_read_string input" and "valid_read_string chars"
  shows "clam_match_chars input chars =
    (if chars \<noteq> [] \<and> prefix chars input then length chars else 0)"
proof -
  let ?p = "longest_common_prefix input chars"
  have p2: "prefix ?p chars" by (rule longest_common_prefix_prefix2)
  have p1: "prefix ?p input" by (rule longest_common_prefix_prefix1)
  have iff: "length chars \<le> length ?p \<longleftrightarrow> prefix chars input"
  proof
    assume "length chars \<le> length ?p"
    with p2 have "?p = chars"
      by (metis prefix_length_le le_antisym prefixE append_eq_conv_conj append_self_conv length_append)
    with p1 show "prefix chars input" by simp
  next
    assume "prefix chars input"
    then have "prefix chars ?p"
      by (simp add: longest_common_prefix_max_prefix)
    then show "length chars \<le> length ?p" by (rule prefix_length_le)
  qed
  have len: "prefix chars input \<Longrightarrow> length ?p = length chars"
    using iff p2 prefix_length_le by (metis le_antisym)
  have nz: "\<not> prefix chars input \<Longrightarrow> \<not> length chars \<le> length ?p"
    using iff by simp
  show ?thesis
    using assms len nz
    by (auto simp: clam_match_chars_def lockstep_loop_spec match_end_drop Let_def)
qed

lemma match_chars_to_end_spec:
  assumes "valid_read_string input" and "valid_read_string chars"
  shows "clam_match_chars_to_end input chars =
    (if chars \<noteq> [] \<and> input = chars then length chars else 0)"
proof -
  have "prefix chars input \<Longrightarrow> length input \<le> length chars \<Longrightarrow> input = chars"
    by (metis prefix_length_le le_antisym prefixE append_eq_conv_conj append_self_conv)
  then show ?thesis
    using assms
    by (auto simp: clam_match_chars_to_end_def match_chars_spec match_end_drop Let_def)
qed


lemma deref_0: "idx s 0 = deref s"
  by (simp add: idx_def ptr_add_def)

lemma numeric10_spec: "clam_match_numeric10_char s = of_bool (is_numeric10_char (deref s))"
  by (simp add: clam_match_numeric10_char_def is_numeric10_char_def deref_0)

lemma alphanumeric_spec:
  "clam_match_alphanumeric_char s = of_bool (is_alphanumeric_char (deref s))"
  by (auto simp: clam_match_alphanumeric_char_def clam_match_alpha_char_def
      clam_match_lowercase_char_def clam_match_uppercase_char_def numeric10_spec
      is_alphanumeric_char_def is_alpha_char_def is_upper_char_def is_lower_char_def deref_0)

lemma NUL_no_class [simp]:
  "\<not> is_numeric10_char NUL" "\<not> is_upper_char NUL" "\<not> is_lower_char NUL"
  "\<not> is_alpha_char NUL" "\<not> is_alphanumeric_char NUL"
  by (simp_all add: is_alphanumeric_char_def is_alpha_char_def is_upper_char_def
      is_lower_char_def is_numeric10_char_def NUL_def less_eq_char_def)

lemma unsigned_spec:
  "clam_match_unsigned_integer10 input = length (takeWhile is_numeric10_char input)"
  by (simp add: clam_match_unsigned_integer10_def unsigned_loop_spec)

lemma valid_signs [simp]: "valid_read_string clam__signs"
  by (simp add: clam__signs_def NUL_def)

lemma valid_dashes [simp]: "valid_read_string clam__dashes"
  by (simp add: clam__dashes_def NUL_def)

lemma signed_spec:
  assumes "valid_read_string input"
  shows "clam_match_signed_integer10 input =
    (let sign_length = (if input \<noteq> [] \<and> (hd input = CHR ''+'' \<or> hd input = CHR ''-'') then 1 else 0);
         digit_length = length (takeWhile is_numeric10_char (drop sign_length input))
     in if digit_length = 0 then 0 else sign_length + digit_length)"
proof -
  have "clam_match_anychar input (Some clam__signs) =
      (if input \<noteq> [] \<and> (hd input = CHR ''+'' \<or> hd input = CHR ''-'') then 1 else 0)"
    using anychar_spec [OF assms, of "Some clam__signs"]
    by (auto simp: valid_read_string_or_null_def in_allow_set_def) (auto simp: clam__signs_def)
  then show ?thesis
    by (simp add: clam_match_signed_integer10_def unsigned_spec ptr_add_def Let_def)
qed

lemma posix_option_spec:
  assumes "valid_read_string input" and "valid_read_string_or_null allowed"
  shows "clam_match_posix_option input allowed =
    (if \<exists>c rest. input = CHR ''-'' # c # rest \<and> is_alphanumeric_char c \<and> in_allow_set allowed c
     then 2 else 0)"
proof (cases input)
  case Nil
  then show ?thesis
    by (simp add: clam_match_posix_option_def match_char_deref NUL_def)
next
  case (Cons a as)
  note outer = Cons
  show ?thesis
  proof (cases as)
    case Nil
    with outer show ?thesis
      by (simp add: clam_match_posix_option_def match_char_deref ptr_add_def alphanumeric_spec)
  next
    case (Cons b bs)
    with outer assms show ?thesis
      by (simp add: clam_match_posix_option_def match_char_deref ptr_add_def
          alphanumeric_spec anychar_spec)
  qed
qed

lemma long_option_spec:
  assumes "valid_read_string input" and "valid_read_string option"
  shows "clam_match_posix_long_option input option =
    (if option \<noteq> [] \<and> prefix (CHR ''-'' # option) input then 1 + length option else 0)"
proof (cases input)
  case Nil
  then show ?thesis
    by (simp add: clam_match_posix_long_option_def match_char_deref NUL_def)
next
  case (Cons a as)
  with assms show ?thesis
    by (simp add: clam_match_posix_long_option_def match_char_deref ptr_add_def
        match_chars_spec Let_def)
qed

lemma flags_loop_spec:
  assumes "valid_read_string input" and "valid_read_string_or_null allowed"
  shows "i \<le> length input \<Longrightarrow>
    clam_match_posix_flags_loop input allowed i =
      (if \<forall>c \<in> set (drop i input). is_alphanumeric_char c \<and> in_allow_set allowed c
       then Done (length input) else Return 0)"
proof (induction "length input - i" arbitrary: i)
  case 0
  then show ?case
    using assms by (subst clam_match_posix_flags_loop.simps) (simp add: match_end_drop)
next
  case (Suc k)
  then have lt: "i < length input" by simp
  have d: "drop i input = input ! i # drop (Suc i) input"
    using lt by (simp add: Cons_nth_drop_Suc)
  have e: "clam_match_end (ptr_add input i) = 0"
    using lt assms by (simp add: match_end_drop)
  have a: "clam_match_alphanumeric_char (ptr_add input i) = of_bool (is_alphanumeric_char (input ! i))"
    by (simp add: alphanumeric_spec ptr_add_def d)
  have b: "clam_match_anychar (ptr_add input i) allowed = of_bool (in_allow_set allowed (input ! i))"
    using lt assms(2) valid_read_string_drop[OF assms(1), of i]
    by (simp add: anychar_spec ptr_add_def) (simp add: d)
  from Suc lt have IH: "clam_match_posix_flags_loop input allowed (Suc i) =
      (if \<forall>c \<in> set (drop (Suc i) input). is_alphanumeric_char c \<and> in_allow_set allowed c
       then Done (length input) else Return 0)"
    by simp
  show ?case
    using IH by (subst clam_match_posix_flags_loop.simps) (simp add: e a b d)
qed

lemma posix_flags_spec:
  assumes "valid_read_string input" and "valid_read_string_or_null allowed"
  shows "clam_match_posix_flags input allowed =
    (if \<exists>flags. input = CHR ''-'' # flags \<and> flags \<noteq> [] \<and>
          (\<forall>c \<in> set flags. is_alphanumeric_char c \<and> in_allow_set allowed c)
     then length input else 0)"
proof (cases input)
  case Nil
  then show ?thesis
    by (simp add: clam_match_posix_flags_def match_char_deref NUL_def)
next
  case (Cons a as)
  have "clam_match_posix_flags_loop input allowed 1 =
      (if \<forall>c \<in> set (drop 1 input). is_alphanumeric_char c \<and> in_allow_set allowed c
       then Done (length input) else Return 0)"
    using Cons by (intro flags_loop_spec assms) simp
  with Cons show ?thesis
    by (cases as) (auto simp: clam_match_posix_flags_def match_char_deref)
qed

lemma terminate_spec:
  assumes "valid_read_string input"
  shows "clam_match_posix_terminate_options input = (if input = ''--'' then 2 else 0)"
  using assms
  by (simp add: clam_match_posix_terminate_options_def match_chars_to_end_spec)
     (simp add: clam__dashes_def)

section \<open>The first character: \<open>clam_match_char\<close>, \<open>clam_match_end\<close>, \<open>clam_match_anychar\<close>\<close>

text \<open>
  Claim C1, as stated: for every string \<open>s\<close> and every character \<open>c\<close>, the terminator
  included, \<open>clam_match_char s c\<close> is 1 if and only if \<open>s\<close> is non-empty and its first
  character is \<open>c\<close>. The empty string and the terminator refute it: the function compares
  \<open>input[0]\<close>, which is the terminator of the empty string, and returns 1.
\<close>

theorem clam_match_char_terminator_counterexample:
  "valid_read_string '''' \<and>
   \<not> (clam_match_char '''' (CHR 0x00) = 1 \<longleftrightarrow> ('''' \<noteq> [] \<and> hd '''' = CHR 0x00))"
  by (simp add: match_char_deref NUL_def)

text \<open>
  Claim C1, amended: \<open>clam_match_char s c\<close> is 1 if and only if \<open>s\<close> is non-empty and
  its first character is \<open>c\<close>, or \<open>s\<close> is empty and \<open>c\<close> is the terminator; otherwise
  it is 0.
\<close>

theorem clam_match_char_first_char:
  assumes "valid_read_string s"
  shows "clam_match_char s c =
    (if (s \<noteq> [] \<and> hd s = c) \<or> (s = [] \<and> c = NUL) then 1 else 0)"
  by (cases s) (auto simp: match_char_deref)

theorem clam_match_char_first_char_witness:
  "valid_read_string ''A'' \<and> clam_match_char ''A'' CHR ''A'' = 1 \<and>
   clam_match_char ''A'' CHR ''a'' = 0 \<and> clam_match_char ''A'' NUL = 0 \<and>
   valid_read_string '''' \<and> clam_match_char '''' CHR ''A'' = 0 \<and> clam_match_char '''' NUL = 1"
  using clam_match_char_first_char [of "''A''" "CHR ''A''"]
    clam_match_char_first_char [of "''A''" "CHR ''a''"]
    clam_match_char_first_char [of "''A''" NUL]
    clam_match_char_first_char [of "''''" "CHR ''A''"]
    clam_match_char_first_char [of "''''" NUL]
  by (simp add: NUL_def)

text \<open>
  Claim C2: \<open>clam_match_end s\<close> is 1 when \<open>s\<close> is the empty string and 0 when it is
  not; success at the end of the input is reported by the value 1, not by a consumed
  length of 0.
\<close>

theorem clam_match_end_empty:
  assumes "valid_read_string s"
  shows "clam_match_end s = (if s = [] then 1 else 0)"
  using assms by (simp add: match_end_valid)

theorem clam_match_end_empty_witness:
  "valid_read_string '''' \<and> clam_match_end '''' = 1 \<and>
   valid_read_string ''A'' \<and> clam_match_end ''A'' = 0"
  using clam_match_end_empty [of "''''"] clam_match_end_empty [of "''A''"]
  by (simp add: NUL_def)

text \<open>
  Claim C3: \<open>clam_match_anychar s allow\<close> is 0 when \<open>s\<close> is empty; for a non-empty
  \<open>s\<close> it is 1 when \<open>allow\<close> is the null pointer, and for a string \<open>allow\<close> it is 1
  exactly when some character of \<open>allow\<close> equals the first character of \<open>s\<close>. The
  null pointer and the empty string are told apart on every non-empty input.
\<close>

theorem clam_match_anychar_allow_set:
  assumes "valid_read_string s" and "valid_read_string_or_null allow"
  shows "clam_match_anychar s allow =
      (if s = [] then 0
       else case allow of
              None \<Rightarrow> 1
            | Some cs \<Rightarrow> if \<exists>x \<in> set cs. x = hd s then 1 else 0) \<and>
    (s \<noteq> [] \<longrightarrow> clam_match_anychar s None = 1 \<and> clam_match_anychar s (Some '''') = 0)"
  using assms
  by (auto simp: anychar_spec in_allow_set_def valid_read_string_or_null_def split: option.splits)

theorem clam_match_anychar_allow_set_witness:
  "valid_read_string ''A'' \<and> valid_read_string_or_null (Some ''aA123'') \<and>
   clam_match_anychar ''A'' (Some ''aA123'') = 1 \<and>
   clam_match_anychar ''A'' None = 1 \<and> clam_match_anychar ''A'' (Some '''') = 0 \<and>
   valid_read_string ''B'' \<and> clam_match_anychar ''B'' (Some ''aA123'') = 0 \<and>
   valid_read_string '''' \<and> clam_match_anychar '''' (Some ''aA123'') = 0 \<and>
   valid_read_string_or_null None \<and> clam_match_anychar '''' None = 0"
  using clam_match_anychar_allow_set [of "''A''" "Some ''aA123''"]
    clam_match_anychar_allow_set [of "''B''" "Some ''aA123''"]
    clam_match_anychar_allow_set [of "''''" "Some ''aA123''"]
    clam_match_anychar_allow_set [of "''''" None]
  by (simp add: NUL_def valid_read_string_or_null_def)

section \<open>Prefixes and numbers\<close>

text \<open>
  Claim C6: with \<open>i\<close> the number of equal leading characters of \<open>input\<close> and
  \<open>chars\<close> (the length of their longest common prefix),
  \<open>clam_match_at_least_n_chars input n chars\<close> is \<open>i\<close> when \<open>i \<ge> n\<close> and 0
  otherwise; it is 3 on ("ABC", 2, "ABC"), 2 on ("ABQ", 2, "ABC") and 0 on
  ("ABQ", 3, "ABC").
\<close>

theorem clam_match_at_least_n_chars_common_prefix:
  assumes "valid_read_string input" and "valid_read_string chars"
  shows "clam_match_at_least_n_chars input n chars =
      (let i = length (longest_common_prefix input chars) in if i \<ge> n then i else 0) \<and>
    clam_match_at_least_n_chars ''ABC'' 2 ''ABC'' = 3 \<and>
    clam_match_at_least_n_chars ''ABQ'' 2 ''ABC'' = 2 \<and>
    clam_match_at_least_n_chars ''ABQ'' 3 ''ABC'' = 0"
  using assms
  by (simp add: clam_match_at_least_n_chars_def lockstep_loop_spec NUL_def)

theorem clam_match_at_least_n_chars_common_prefix_witness:
  "valid_read_string ''ABQD'' \<and> valid_read_string ''ABC'' \<and>
   clam_match_at_least_n_chars ''ABQD'' 1 ''ABC'' = 2 \<and>
   clam_match_at_least_n_chars ''ABQD'' 3 ''ABC'' = 0"
  using clam_match_at_least_n_chars_common_prefix [of "''ABQD''" "''ABC''" 1]
    clam_match_at_least_n_chars_common_prefix [of "''ABQD''" "''ABC''" 3]
  by (simp add: NUL_def)

text \<open>
  Claim C7: \<open>clam_match_signed_integer10\<close> consumes at most one leading \<open>+\<close> or
  \<open>-\<close>, then the maximal run of base-10 digits; it returns the sign's length plus the
  run's length when the run is not empty and 0 when no digit follows the optional sign.
  The empty input, a sign alone and a doubled sign yield 0.
\<close>

theorem clam_match_signed_integer10_sign_digits:
  assumes "valid_read_string input"
  shows "clam_match_signed_integer10 input =
      (let sign_length =
             (if input \<noteq> [] \<and> (hd input = CHR ''+'' \<or> hd input = CHR ''-'') then 1 else 0);
           digit_length = length (takeWhile is_numeric10_char (drop sign_length input))
       in if digit_length = 0 then 0 else sign_length + digit_length) \<and>
    (input = [] \<or> input = ''+'' \<or> input = ''-'' \<or>
     (\<exists>s1 s2 rest. input = s1 # s2 # rest \<and> s1 \<in> {CHR ''+'', CHR ''-''} \<and>
        s2 \<in> {CHR ''+'', CHR ''-''})
     \<longrightarrow> clam_match_signed_integer10 input = 0)"
proof -
  have no_digit: "\<not> is_numeric10_char CHR ''+''" "\<not> is_numeric10_char CHR ''-''"
    by (simp_all add: is_numeric10_char_def less_eq_char_def)
  show ?thesis
    unfolding signed_spec [OF assms] using no_digit by (auto simp: Let_def)
qed

theorem clam_match_signed_integer10_sign_digits_witness:
  "valid_read_string ''-1234a'' \<and> clam_match_signed_integer10 ''-1234a'' = 5 \<and>
   valid_read_string ''1234a'' \<and> clam_match_signed_integer10 ''1234a'' = 4 \<and>
   valid_read_string ''++1234a'' \<and> clam_match_signed_integer10 ''++1234a'' = 0 \<and>
   valid_read_string ''+'' \<and> clam_match_signed_integer10 ''+'' = 0 \<and>
   valid_read_string '''' \<and> clam_match_signed_integer10 '''' = 0"
  using clam_match_signed_integer10_sign_digits [of "''-1234a''"]
    clam_match_signed_integer10_sign_digits [of "''1234a''"]
    clam_match_signed_integer10_sign_digits [of "''++1234a''"]
    clam_match_signed_integer10_sign_digits [of "''+''"]
    clam_match_signed_integer10_sign_digits [of "''''"]
  by (simp add: NUL_def is_numeric10_char_def less_eq_char_def)

section \<open>POSIX options\<close>

text \<open>
  Claim C8: \<open>clam_match_posix_option\<close> returns 0 or 2; it returns 2 if and only if the
  input starts with \<open>-\<close> followed by an alphanumeric character of the allowed set (any
  alphanumeric character when the allowed set is the null pointer); the result depends
  on the first two characters of the input only.
\<close>

theorem clam_match_posix_option_two:
  assumes "valid_read_string input" and "valid_read_string_or_null allowed"
  shows "(clam_match_posix_option input allowed = 0 \<or> clam_match_posix_option input allowed = 2) \<and>
    (clam_match_posix_option input allowed = 2 \<longleftrightarrow>
       (\<exists>c rest. input = CHR ''-'' # c # rest \<and> is_alphanumeric_char c \<and>
          in_allow_set allowed c)) \<and>
    clam_match_posix_option input allowed = clam_match_posix_option (take 2 input) allowed"
proof -
  have v: "valid_read_string (take 2 input)"
    using assms(1) unfolding valid_read_string_def by (meson in_set_takeD)
  have t: "(\<exists>c rest. take 2 input = CHR ''-'' # c # rest \<and> is_alphanumeric_char c \<and>
              in_allow_set allowed c) \<longleftrightarrow>
           (\<exists>c rest. input = CHR ''-'' # c # rest \<and> is_alphanumeric_char c \<and>
              in_allow_set allowed c)"
  proof (cases input)
    case Nil
    then show ?thesis by simp
  next
    case (Cons a as)
    then show ?thesis by (cases as) (simp_all add: numeral_2_eq_2)
  qed
  show ?thesis
    unfolding posix_option_spec [OF assms] posix_option_spec [OF v assms(2)] t by simp
qed

theorem clam_match_posix_option_two_witness:
  "valid_read_string ''-azrf'' \<and> valid_read_string_or_null (Some ''dacb1'') \<and>
   clam_match_posix_option ''-azrf'' (Some ''dacb1'') = 2 \<and>
   clam_match_posix_option ''-a'' (Some ''dacb1'') = 2 \<and>
   valid_read_string ''-A'' \<and> clam_match_posix_option ''-A'' (Some ''dacb1'') = 0 \<and>
   valid_read_string ''-'' \<and> valid_read_string_or_null None \<and>
   clam_match_posix_option ''-'' None = 0"
proof -
  have a: "is_alphanumeric_char CHR ''a''"
    by (simp add: is_alphanumeric_char_def is_alpha_char_def is_lower_char_def less_eq_char_def)
  have "clam_match_posix_option ''-azrf'' (Some ''dacb1'') = 2 \<and>
      clam_match_posix_option ''-azrf'' (Some ''dacb1'') =
        clam_match_posix_option ''-a'' (Some ''dacb1'')"
    using clam_match_posix_option_two [of "''-azrf''" "Some ''dacb1''"] a
    by (simp add: NUL_def valid_read_string_or_null_def in_allow_set_def)
  moreover have "clam_match_posix_option ''-A'' (Some ''dacb1'') = 0"
    using clam_match_posix_option_two [of "''-A''" "Some ''dacb1''"]
    by (auto simp: NUL_def valid_read_string_or_null_def in_allow_set_def)
  moreover have "clam_match_posix_option ''-'' None = 0"
    using clam_match_posix_option_two [of "''-''" None]
    by (auto simp: NUL_def valid_read_string_or_null_def)
  ultimately show ?thesis
    by (simp add: NUL_def valid_read_string_or_null_def)
qed

text \<open>
  Claim C5, as stated: \<open>clam_match_posix_long_option input option\<close> is 0 when the
  input does not start with \<open>-\<close> and \<open>1 + clam_match_chars (input + 1) option\<close>
  otherwise. On the input \<open>-x\<close> with the option \<open>y\<close> the input starts with \<open>-\<close>,
  \<open>clam_match_chars\<close> returns 0 and the matcher returns 0, not 1.
\<close>

theorem clam_match_posix_long_option_counterexample:
  "valid_read_string ''-x'' \<and> valid_read_string ''y'' \<and> hd ''-x'' = CHR ''-'' \<and>
   clam_match_posix_long_option ''-x'' ''y'' = 0 \<and>
   1 + clam_match_chars (ptr_add ''-x'' 1) ''y'' = 1 \<and>
   clam_match_posix_long_option ''-x'' ''y'' \<noteq> 1 + clam_match_chars (ptr_add ''-x'' 1) ''y''"
proof -
  have v: "valid_read_string ''-x''" "valid_read_string ''y''" "valid_read_string ''x''"
    by (simp_all add: NUL_def)
  show ?thesis
    using v by (simp add: long_option_spec match_chars_spec ptr_add_def)
qed

text \<open>
  Claim C5, amended: \<open>clam_match_posix_long_option input option\<close> is 0 when the
  input does not start with \<open>-\<close>; otherwise it is
  \<open>1 + clam_match_chars (input + 1) option\<close> when \<open>clam_match_chars\<close> returns a
  non-zero length and 0 when it returns 0. It is 0 when the option is not a prefix of
  the input past the dash and when the option is empty.
\<close>

theorem clam_match_posix_long_option_dash_prefix:
  assumes "valid_read_string input" and "valid_read_string option"
  shows "clam_match_posix_long_option input option =
      (if input = [] \<or> hd input \<noteq> CHR ''-'' then 0
       else if clam_match_chars (ptr_add input 1) option = 0 then 0
       else 1 + clam_match_chars (ptr_add input 1) option) \<and>
    (\<not> prefix option (tl input) \<or> option = []
       \<longrightarrow> clam_match_posix_long_option input option = 0)"
proof (cases input)
  case Nil
  then show ?thesis
    by (simp add: clam_match_posix_long_option_def match_char_deref NUL_def)
next
  case (Cons a as)
  have "clam_match_posix_long_option input option =
      (if input = [] \<or> hd input \<noteq> CHR ''-'' then 0
       else if clam_match_chars (ptr_add input 1) option = 0 then 0
       else 1 + clam_match_chars (ptr_add input 1) option)"
    using Cons by (simp add: clam_match_posix_long_option_def match_char_deref Let_def)
  moreover have "\<not> prefix option (tl input) \<or> option = []
       \<longrightarrow> clam_match_posix_long_option input option = 0"
    unfolding long_option_spec [OF assms] using Cons by auto
  ultimately show ?thesis by blast
qed

theorem clam_match_posix_long_option_dash_prefix_witness:
  "valid_read_string ''--hellop'' \<and> valid_read_string ''-help'' \<and>
   clam_match_posix_long_option ''--hellop'' ''-help'' = 0 \<and>
   valid_read_string ''-'' \<and> valid_read_string '''' \<and>
   clam_match_posix_long_option ''-'' '''' = 0 \<and>
   valid_read_string ''hello'' \<and>
   clam_match_posix_long_option ''hello'' ''hello'' = 0 \<and>
   valid_read_string ''-hello'' \<and>
   clam_match_posix_long_option ''--hellop'' ''-hello'' =
     (if clam_match_chars ''-hellop'' ''-hello'' = 0 then 0
      else 1 + clam_match_chars ''-hellop'' ''-hello'')"
  using clam_match_posix_long_option_dash_prefix [of "''--hellop''" "''-help''"]
    clam_match_posix_long_option_dash_prefix [of "''-''" "''''"]
    clam_match_posix_long_option_dash_prefix [of "''hello''" "''hello''"]
    clam_match_posix_long_option_dash_prefix [of "''--hellop''" "''-hello''"]
  by (simp add: NUL_def ptr_add_def)

text \<open>
  Claim C10: whenever \<open>clam_match_posix_flags\<close> returns a non-zero result, the result
  is the full length of the input and at least 2: the input is \<open>-\<close> followed only by
  alphanumeric characters of the allowed set, with no trailer.
\<close>

theorem clam_match_posix_flags_whole_input:
  assumes "valid_read_string input" and "valid_read_string_or_null allowed"
    and "clam_match_posix_flags input allowed \<noteq> 0"
  shows "clam_match_posix_flags input allowed = length input \<and>
    2 \<le> clam_match_posix_flags input allowed \<and>
    (\<exists>flags. input = CHR ''-'' # flags \<and>
       (\<forall>c \<in> set flags. is_alphanumeric_char c \<and> in_allow_set allowed c))"
proof -
  from assms(3) obtain flags where f: "input = CHR ''-'' # flags" "flags \<noteq> []"
      "\<forall>c \<in> set flags. is_alphanumeric_char c \<and> in_allow_set allowed c"
    unfolding posix_flags_spec [OF assms(1,2)] by (auto split: if_splits)
  then have "clam_match_posix_flags input allowed = length input"
    unfolding posix_flags_spec [OF assms(1,2)] by auto
  moreover have "2 \<le> length input"
    using f by (cases flags) simp_all
  ultimately show ?thesis using f by auto
qed

theorem clam_match_posix_flags_whole_input_witness:
  "valid_read_string ''-ab1'' \<and> valid_read_string_or_null (Some ''dacb1'') \<and>
   clam_match_posix_flags ''-ab1'' (Some ''dacb1'') \<noteq> 0 \<and>
   clam_match_posix_flags ''-ab1'' (Some ''dacb1'') = 4"
proof -
  have v: "valid_read_string ''-ab1''" "valid_read_string_or_null (Some ''dacb1'')"
    by (simp_all add: NUL_def valid_read_string_or_null_def)
  have nz: "clam_match_posix_flags ''-ab1'' (Some ''dacb1'') \<noteq> 0"
    unfolding posix_flags_spec [OF v]
    by (simp add: is_alphanumeric_char_def is_alpha_char_def is_lower_char_def
        is_upper_char_def is_numeric10_char_def less_eq_char_def in_allow_set_def)
  show ?thesis
    using clam_match_posix_flags_whole_input [OF v nz] v nz by simp
qed

text \<open>
  Claim C9: \<open>clam_match_posix_terminate_options input\<close> is 2 if and only if the
  input is exactly \<open>--\<close> and 0 in every other case, \<open>--a\<close> and \<open>b--a\<close> included;
  it is \<open>clam_match_chars_to_end input "--"\<close>.
\<close>

theorem clam_match_posix_terminate_options_exact:
  assumes "valid_read_string input"
  shows "(clam_match_posix_terminate_options input = 2 \<longleftrightarrow> input = ''--'') \<and>
    (input \<noteq> ''--'' \<longrightarrow> clam_match_posix_terminate_options input = 0) \<and>
    clam_match_posix_terminate_options input = clam_match_chars_to_end input ''--'' \<and>
    clam_match_posix_terminate_options ''--a'' = 0 \<and>
    clam_match_posix_terminate_options ''b--a'' = 0"
proof -
  have s: "clam_match_posix_terminate_options input = (if input = ''--'' then 2 else 0)"
    by (rule terminate_spec [OF assms])
  have c1: "clam_match_posix_terminate_options input = 2 \<longleftrightarrow> input = ''--''"
    unfolding s by simp
  have c2: "input \<noteq> ''--'' \<longrightarrow> clam_match_posix_terminate_options input = 0"
    unfolding s by simp
  have c3: "clam_match_posix_terminate_options input = clam_match_chars_to_end input ''--''"
    by (simp add: clam_match_posix_terminate_options_def clam__dashes_def)
  have c4: "clam_match_posix_terminate_options ''--a'' = 0"
    and c5: "clam_match_posix_terminate_options ''b--a'' = 0"
    by (simp_all add: terminate_spec NUL_def)
  show ?thesis
    using c1 c2 c3 c4 c5 by blast
qed

theorem clam_match_posix_terminate_options_exact_witness:
  "valid_read_string ''--'' \<and> clam_match_posix_terminate_options ''--'' = 2 \<and>
   valid_read_string ''-'' \<and> clam_match_posix_terminate_options ''-'' = 0"
  using clam_match_posix_terminate_options_exact [of "''--''"]
    clam_match_posix_terminate_options_exact [of "''-''"]
  by (simp add: NUL_def)

section \<open>Results are prefix lengths\<close>

lemma match_char_le:
  "valid_read_string input \<Longrightarrow> c \<noteq> NUL \<Longrightarrow> clam_match_char input c \<le> length input"
  by (cases input) (auto simp: match_char_deref)

lemma anychar_le:
  "valid_read_string input \<Longrightarrow> valid_read_string_or_null allowed \<Longrightarrow>
   clam_match_anychar input allowed \<le> length input"
  by (cases input) (simp_all add: anychar_spec)

lemma at_least_n_chars_le:
  "valid_read_string input \<Longrightarrow> valid_read_string chars \<Longrightarrow>
   clam_match_at_least_n_chars input n chars \<le> length input"
  using prefix_length_le [OF longest_common_prefix_prefix1 [of input chars]]
  by (simp add: clam_match_at_least_n_chars_def lockstep_loop_spec Let_def)

lemma match_chars_le:
  "valid_read_string input \<Longrightarrow> valid_read_string chars \<Longrightarrow>
   clam_match_chars input chars \<le> length input"
  by (simp add: match_chars_spec prefix_length_le)

lemma match_chars_to_end_le:
  "valid_read_string input \<Longrightarrow> valid_read_string chars \<Longrightarrow>
   clam_match_chars_to_end input chars \<le> length input"
  by (simp add: match_chars_to_end_spec)

lemma char_class_le:
  "clam_match_numeric10_char input \<le> length input"
  "clam_match_numeric16_char input \<le> length input"
  "clam_match_uppercase_char input \<le> length input"
  "clam_match_lowercase_char input \<le> length input"
  "clam_match_alpha_char input \<le> length input"
  "clam_match_alphanumeric_char input \<le> length input"
  by (cases input;
      simp add: clam_match_numeric10_char_def clam_match_numeric16_char_def
        clam_match_uppercase_char_def clam_match_lowercase_char_def clam_match_alpha_char_def
        clam_match_alphanumeric_char_def deref_0 NUL_def less_eq_char_def)+

lemma unsigned_le: "clam_match_unsigned_integer10 input \<le> length input"
  by (simp add: unsigned_spec length_takeWhile_le)

lemma signed_le:
  assumes "valid_read_string input"
  shows "clam_match_signed_integer10 input \<le> length input"
proof (cases input)
  case Nil
  then show ?thesis by (simp add: signed_spec)
next
  case (Cons a as)
  have "length (takeWhile is_numeric10_char as) \<le> length as"
    by (rule length_takeWhile_le)
  moreover have "length (takeWhile is_numeric10_char (a # as)) \<le> Suc (length as)"
    using length_takeWhile_le [of is_numeric10_char "a # as"] by simp
  ultimately show ?thesis
    unfolding signed_spec [OF assms] using Cons
    by (auto simp: Let_def simp del: takeWhile.simps)
qed

lemma posix_option_le:
  "valid_read_string input \<Longrightarrow> valid_read_string_or_null allowed \<Longrightarrow>
   clam_match_posix_option input allowed \<le> length input"
  by (auto simp: posix_option_spec)

lemma long_option_le:
  "valid_read_string input \<Longrightarrow> valid_read_string option \<Longrightarrow>
   clam_match_posix_long_option input option \<le> length input"
  by (auto simp: long_option_spec dest: prefix_length_le)

lemma posix_flags_le:
  "valid_read_string input \<Longrightarrow> valid_read_string_or_null allowed \<Longrightarrow>
   clam_match_posix_flags input allowed \<le> length input"
  by (simp add: posix_flags_spec)

lemma terminate_le:
  "valid_read_string input \<Longrightarrow> clam_match_posix_terminate_options input \<le> length input"
  by (auto simp: terminate_spec)

lemma windows_switch_le:
  "clam_match_windows_switch input allowed \<le> length input"
proof (cases input)
  case Nil
  then show ?thesis
    by (simp add: clam_match_windows_switch_def match_char_deref NUL_def)
next
  case (Cons a as)
  then show ?thesis
    by (cases as)
       (simp_all add: clam_match_windows_switch_def ptr_add_def alphanumeric_spec)
qed

lemma windows_long_switch_le:
  assumes "valid_read_string input" and "valid_read_string switch_s"
  shows "clam_match_windows_long_switch input switch_s \<le> length input"
proof (cases input)
  case Nil
  then show ?thesis
    by (simp add: clam_match_windows_long_switch_def match_char_deref NUL_def)
next
  case (Cons a as)
  with assms have "clam_match_chars as switch_s \<le> length as"
    by (simp add: match_chars_le)
  with Cons show ?thesis
    by (simp add: clam_match_windows_long_switch_def match_char_deref ptr_add_def Let_def)
qed

text \<open>
  Claim C4, as stated: for every matcher other than \<open>clam_match_end\<close>, a non-zero
  result never exceeds the length of the input. \<open>clam_match_char\<close> asked for the
  terminator refutes it on the empty string: the result is 1 and the length is 0.
\<close>

theorem clam_match_char_exceeds_input_counterexample:
  "valid_read_string '''' \<and> clam_match_char '''' (CHR 0x00) \<noteq> 0 \<and>
   \<not> clam_match_char '''' (CHR 0x00) \<le> length ''''"
  by (simp add: match_char_deref NUL_def)

text \<open>
  Claim C4, amended: for every matcher other than \<open>clam_match_end\<close>, and other than
  \<open>clam_match_char\<close> asked for the terminator character, the result never exceeds
  the length of the input. (A result of 0 never does, so the bound is stated for every
  result.)
\<close>

theorem matcher_result_within_input:
  assumes "valid_read_string input" and "valid_read_string chars"
    and "valid_read_string_or_null allowed" and "c \<noteq> NUL"
  shows "clam_match_char input c \<le> length input \<and>
    clam_match_anychar input allowed \<le> length input \<and>
    clam_match_at_least_n_chars input n chars \<le> length input \<and>
    clam_match_chars input chars \<le> length input \<and>
    clam_match_chars_to_end input chars \<le> length input \<and>
    clam_match_numeric10_char input \<le> length input \<and>
    clam_match_unsigned_integer10 input \<le> length input \<and>
    clam_match_signed_integer10 input \<le> length input \<and>
    clam_match_numeric16_char input \<le> length input \<and>
    clam_match_uppercase_char input \<le> length input \<and>
    clam_match_lowercase_char input \<le> length input \<and>
    clam_match_alpha_char input \<le> length input \<and>
    clam_match_alphanumeric_char input \<le> length input \<and>
    clam_match_posix_option input allowed \<le> length input \<and>
    clam_match_posix_long_option input chars \<le> length input \<and>
    clam_match_posix_flags input allowed \<le> length input \<and>
    clam_match_posix_terminate_options input \<le> length input \<and>
    clam_match_windows_switch input allowed \<le> length input \<and>
    clam_match_windows_long_switch input chars \<le> length input"
  by (intro conjI match_char_le anychar_le at_least_n_chars_le match_chars_le
      match_chars_to_end_le char_class_le unsigned_le signed_le posix_option_le
      long_option_le posix_flags_le terminate_le windows_switch_le windows_long_switch_le
      assms)

theorem matcher_result_within_input_witness:
  "valid_read_string ''-a'' \<and> valid_read_string ''a'' \<and>
   valid_read_string_or_null (Some ''a'') \<and> CHR ''-'' \<noteq> NUL \<and>
   clam_match_char ''-a'' CHR ''-'' \<le> 2 \<and>
   clam_match_at_least_n_chars ''-a'' 1 ''a'' \<le> 2 \<and>
   clam_match_posix_option ''-a'' (Some ''a'') \<le> 2 \<and>
   clam_match_posix_long_option ''-a'' ''a'' \<le> 2 \<and>
   clam_match_posix_flags ''-a'' (Some ''a'') \<le> 2 \<and>
   clam_match_windows_long_switch ''-a'' ''a'' \<le> 2"
  using matcher_result_within_input [of "''-a''" "''a''" "Some ''a''" "CHR ''-''" 1]
  by (simp add: NUL_def valid_read_string_or_null_def)

end
